theory Spec2Isabelle
  imports Complex_Main "HOL-Library.Log_Nat" "HOL-Library.Sublist"
begin

section \<open>Calendar dates\<close>

text \<open>
  Both programs take their days from Python's \<^verbatim>\<open>datetime.date\<close> and store them as
  \<^verbatim>\<open>isoformat()\<close> strings (\<^verbatim>\<open>YYYY-MM-DD\<close>). A date object is modelled as a record
  of its three fields. A stored day is modelled by the proleptic Gregorian ordinal of the
  date (\<^verbatim>\<open>date.toordinal()\<close>): on valid dates the ordinal and the zero-padded ISO string
  determine each other, and the order of the strings (which SQLite's \<^verbatim>\<open>DATE(..) <=\<close> and
  \<^verbatim>\<open>BETWEEN\<close> compare) is the order of the ordinals. \<^verbatim>\<open>d - timedelta(days=1)\<close>
  is subtraction of 1 on ordinals.

  The functions below are the ones of CPython's \<^verbatim>\<open>datetime\<close> module
  (\<^verbatim>\<open>_is_leap\<close>, \<^verbatim>\<open>_days_before_year\<close>, \<^verbatim>\<open>_days_in_month\<close>,
  \<^verbatim>\<open>_days_before_month\<close>, \<^verbatim>\<open>_ymd2ord\<close>, \<^verbatim>\<open>_isoweek1monday\<close>,
  \<^verbatim>\<open>date.isoweekday\<close>, \<^verbatim>\<open>date.isocalendar\<close>). The module's range limit
  (years 1 to 9999, \<^verbatim>\<open>OverflowError\<close> when date arithmetic leaves it) is not
  modelled: arithmetic on ordinals is total here.
\<close>

record pydate =
  year :: int
  month :: int
  day :: int

definition is_leap :: "int \<Rightarrow> bool" where
  "is_leap y = (y mod 4 = 0 \<and> (y mod 100 \<noteq> 0 \<or> y mod 400 = 0))"

definition days_before_year :: "int \<Rightarrow> int" where
  "days_before_year y = (let y1 = y - 1 in y1 * 365 + y1 div 4 - y1 div 100 + y1 div 400)"

definition days_in_month :: "int \<Rightarrow> int \<Rightarrow> int" where
  "days_in_month y m =
     (if m = 2 \<and> is_leap y then 29
      else if m = 2 then 28
      else if m = 4 \<or> m = 6 \<or> m = 9 \<or> m = 11 then 30
      else 31)"

definition days_before_month :: "int \<Rightarrow> int \<Rightarrow> int" where
  "days_before_month y m =
     (if m = 1 then 0 else if m = 2 then 31 else if m = 3 then 59 else if m = 4 then 90
      else if m = 5 then 120 else if m = 6 then 151 else if m = 7 then 181
      else if m = 8 then 212 else if m = 9 then 243 else if m = 10 then 273
      else if m = 11 then 304 else 334)
     + (if m > 2 \<and> is_leap y then 1 else 0)"

definition ymd2ord :: "int \<Rightarrow> int \<Rightarrow> int \<Rightarrow> int" where
  "ymd2ord y m d = days_before_year y + days_before_month y m + d"

definition toordinal :: "pydate \<Rightarrow> int" where
  "toordinal dt = ymd2ord (year dt) (month dt) (day dt)"

text \<open>What the constructor \<^verbatim>\<open>date(y, m, d)\<close> accepts.\<close>

definition valid_date :: "pydate \<Rightarrow> bool" where
  "valid_date dt =
     (1 \<le> year dt \<and> year dt \<le> 9999 \<and> 1 \<le> month dt \<and> month dt \<le> 12 \<and>
      1 \<le> day dt \<and> day dt \<le> days_in_month (year dt) (month dt))"

text \<open>\<^verbatim>\<open>isoweekday\<close>: Monday is 1, Sunday is 7 (\<^verbatim>\<open>toordinal() % 7 or 7\<close>).\<close>

definition isoweekday :: "int \<Rightarrow> int" where
  "isoweekday n = (if n mod 7 = 0 then 7 else n mod 7)"

definition isoweek1monday :: "int \<Rightarrow> int" where
  "isoweek1monday y =
     (let firstday = ymd2ord y 1 1;
          firstweekday = (firstday + 6) mod 7;
          week1monday = firstday - firstweekday
      in if firstweekday > 3 then week1monday + 7 else week1monday)"

text \<open>\<^verbatim>\<open>isocalendar\<close> returns (ISO year, ISO week, ISO weekday).\<close>

definition isocalendar :: "pydate \<Rightarrow> int \<times> int \<times> int" where
  "isocalendar dt =
     (let y = year dt;
          week1monday = isoweek1monday y;
          today = toordinal dt;
          week = (today - week1monday) div 7;
          wday = (today - week1monday) mod 7
      in if week < 0 then
           (let week1monday' = isoweek1monday (y - 1)
            in (y - 1, (today - week1monday') div 7 + 1, (today - week1monday') mod 7 + 1))
         else if week \<ge> 52 \<and> today \<ge> isoweek1monday (y + 1) then (y + 1, 1, wday + 1)
         else (y, week + 1, wday + 1))"

text \<open>
  The two helpers of \<^verbatim>\<open>habit_diary.py\<close>. \<^verbatim>\<open>month_range\<close> returns the first and the
  last day of a month, \<^verbatim>\<open>iso_to_monday\<close> the Monday of an ISO week, both as ordinals.
\<close>

definition month_range :: "int \<Rightarrow> int \<Rightarrow> int \<times> int" where
  "month_range y m =
     (let first = ymd2ord y m 1;
          next_month = (if m = 12 then ymd2ord (y + 1) 1 1 else ymd2ord y (m + 1) 1);
          last = next_month - 1
      in (first, last))"

definition iso_to_monday :: "int \<Rightarrow> int \<Rightarrow> int" where
  "iso_to_monday iso_year iso_week =
     (let fourth_jan = ymd2ord iso_year 1 4;
          delta = isoweekday fourth_jan - 1;
          year_start_monday = fourth_jan - delta
      in year_start_monday + 7 * (iso_week - 1))"

section \<open>habit\_diary: the store\<close>

text \<open>
  The SQLite tables of \<^verbatim>\<open>habit_diary.py\<close> as lists of rows in insertion order; the
  \<^verbatim>\<open>AUTOINCREMENT\<close> id of a row is its position. Columns that no modelled operation
  reads are left out: the \<^verbatim>\<open>created_at\<close> timestamps, the habit's \<^verbatim>\<open>cue\<close>,
  \<^verbatim>\<open>intention\<close>, \<^verbatim>\<open>min_action\<close> and \<^verbatim>\<open>start_date\<close>, and the award's
  \<^verbatim>\<open>reason\<close> text. The generated (Russian) note texts of the source are represented
  by constructors that keep the values formatted into them.
\<close>

datatype error = HabitNotFound | InvalidDate | DuplicateEntry

datatype kind = COMPLETION | BONUS | BADGE

datatype note_text =
    NoNote
  | UserNote string
  | RepeatNote
  | BonusNote int int
  | BadgeNote string

record Habit =
  h_id :: int
  h_name :: string
  difficulty :: int
  frequency_per_week :: int
  is_active :: bool

record log_row =
  habit_id :: int
  log_date :: int
  completed :: bool
  row_notes :: note_text
  points :: int
  kind :: kind

record award_row =
  name :: string
  a_habit_id :: "int option"
  award_date :: int
  a_points :: int
  period_start :: "int option"
  period_end :: "int option"

record diary =
  habits :: "Habit list"
  logs :: "log_row list"
  awards :: "award_row list"

definition WEEKLY_CONSISTENCY_BONUS :: int where
  "WEEKLY_CONSISTENCY_BONUS = 20"

subsection \<open>Resolving a habit reference\<close>

text \<open>
  \<^verbatim>\<open>_get_habit_by_id_or_name\<close>: a reference made of digits is an id, any other is a
  name (\<^verbatim>\<open>str.isdigit\<close>, here on ASCII strings). Ids are the primary key and names are
  \<^verbatim>\<open>UNIQUE\<close>, so \<^verbatim>\<open>fetchone\<close> is the first match.
\<close>

definition isdigit :: "string \<Rightarrow> bool" where
  "isdigit s = (s \<noteq> [] \<and> list_all (\<lambda>c. c \<in> set ''0123456789'') s)"

definition int_of_digits :: "string \<Rightarrow> int" where
  "int_of_digits s = foldl (\<lambda>acc c. 10 * acc + (of_char c - 48)) 0 s"

definition get_habit_by_id_or_name :: "diary \<Rightarrow> string \<Rightarrow> error + Habit" where
  "get_habit_by_id_or_name s habit_ref =
     (let row = (if isdigit habit_ref
                 then find (\<lambda>h. h_id h = int_of_digits habit_ref) (habits s)
                 else find (\<lambda>h. h_name h = habit_ref) (habits s))
      in case row of None \<Rightarrow> Inl HabitNotFound | Some h \<Rightarrow> Inr h)"

subsection \<open>Streak length\<close>

text \<open>
  \<^verbatim>\<open>_calculate_streak_length\<close>. The query selects the days up to \<^verbatim>\<open>upto_day\<close> on which
  the habit has a row of kind \<^verbatim>\<open>COMPLETION\<close> with \<^verbatim>\<open>completed = 1\<close>; the code turns
  them into a set, so \<^verbatim>\<open>DISTINCT\<close> and the order do not matter. The \<^verbatim>\<open>while True\<close>
  loop walks back from \<^verbatim>\<open>upto_day\<close> while the day is in the set.
\<close>

definition completion_dates :: "diary \<Rightarrow> int \<Rightarrow> int \<Rightarrow> int list" where
  "completion_dates s hid upto_day =
     map log_date
       (filter (\<lambda>r. habit_id r = hid \<and> kind r = COMPLETION \<and> completed r \<and> log_date r \<le> upto_day)
          (logs s))"

function streak_loop :: "int list \<Rightarrow> int \<Rightarrow> int \<Rightarrow> int" where
  "streak_loop dates cursor_day streak =
     (if cursor_day \<in> set dates then streak_loop dates (cursor_day - 1) (streak + 1)
      else if streak = 0 then 1 else streak)"
  by pat_completeness auto
termination
proof (relation "measure (\<lambda>(dates, cursor_day, streak). length (filter (\<lambda>x. x \<le> cursor_day) dates))")
  show "wf (measure (\<lambda>(dates, cursor_day, streak). length (filter (\<lambda>x. x \<le> cursor_day) dates)))"
    by simp
next
  fix dates :: "int list" and cursor_day streak :: int
  assume mem: "cursor_day \<in> set dates"
  have "length (filter (\<lambda>x. x \<le> cursor_day - 1) dates) < length (filter (\<lambda>x. x \<le> cursor_day) dates)"
    using mem
  proof (induction dates)
    case Nil
    then show ?case by simp
  next
    case (Cons a dates)
    have le: "length (filter (\<lambda>x. x \<le> cursor_day - 1) dates) \<le> length (filter (\<lambda>x. x \<le> cursor_day) dates)"
      by (induction dates) auto
    show ?case
    proof (cases "cursor_day \<in> set dates")
      case True
      with Cons.IH show ?thesis by auto
    next
      case False
      with Cons.prems have "a = cursor_day" by simp
      with le show ?thesis by simp
    qed
  qed
  then show "((dates, cursor_day - 1, streak + 1), (dates, cursor_day, streak))
      \<in> measure (\<lambda>(dates, cursor_day, streak). length (filter (\<lambda>x. x \<le> cursor_day) dates))"
    by simp
qed

declare streak_loop.simps [simp del]

definition calculate_streak_length :: "diary \<Rightarrow> int \<Rightarrow> int \<Rightarrow> int" where
  "calculate_streak_length s hid upto_day =
     (let rows = completion_dates s hid upto_day
      in if rows = [] then 1 else streak_loop rows upto_day 0)"

subsection \<open>Scoring\<close>

text \<open>
  \<^verbatim>\<open>_calculate_points_for_completion\<close> computes in Python floats (IEEE binary64). A float
  is modelled by the rational it denotes, and every float operation by the exact operation
  followed by \<open>fl\<close>, rounding to the nearest number with a 53-bit significand, ties to
  even (the exponent range is not modelled: the values here lie between 0.05 and the
  streak length). \<open>binade x\<close> is the exponent \<open>e\<close> with \<open>2\<^sup>e \<le> x < 2\<^sup>e\<^sup>+\<^sup>1\<close>.
  A decimal literal such as \<^verbatim>\<open>0.05\<close> is the rounding of its decimal value, and
  \<^verbatim>\<open>round\<close> on a float rounds its exact value to the nearest integer, ties to even.
\<close>

definition round_half_even :: "rat \<Rightarrow> int" where
  "round_half_even q =
     (let f = \<lfloor>q\<rfloor>; r = q - of_int f
      in if r < 1 / 2 then f else if r > 1 / 2 then f + 1 else if even f then f else f + 1)"

definition binade :: "rat \<Rightarrow> int" where
  "binade x = (if 1 \<le> x then bitlen \<lfloor>x\<rfloor> - 1 else - bitlen (\<lceil>1 / x\<rceil> - 1))"

definition fl :: "rat \<Rightarrow> rat" where
  "fl x =
     (if x = 0 then 0
      else let e = binade \<bar>x\<bar>; u = 2 powi (e - 52)
           in of_int (round_half_even (x / u)) * u)"

definition BASE_POINTS :: int where
  "BASE_POINTS = 10"

definition DIFFICULTY_MULTIPLIER :: "int \<Rightarrow> rat" where
  "DIFFICULTY_MULTIPLIER d =
     (if d = 1 then fl 1 else if d = 2 then fl (12 / 10) else if d = 3 then fl (15 / 10)
      else fl 1)"

definition MAX_STREAK_BONUS_MULTIPLIER :: rat where
  "MAX_STREAK_BONUS_MULTIPLIER = fl (5 / 10)"

definition STREAK_STEP_BONUS :: rat where
  "STREAK_STEP_BONUS = fl (5 / 100)"

definition calculate_points_for_completion :: "int \<Rightarrow> int \<Rightarrow> int" where
  "calculate_points_for_completion dif streak_length =
     (let diff_mult = DIFFICULTY_MULTIPLIER dif;
          streak_bonus = min MAX_STREAK_BONUS_MULTIPLIER
                             (fl (STREAK_STEP_BONUS * fl (of_int (max 0 (streak_length - 1)))));
          total = fl (fl (of_int BASE_POINTS * diff_mult) * fl (1 + streak_bonus))
      in round_half_even total)"

subsection \<open>Monthly total\<close>

text \<open>
  \<^verbatim>\<open>_get_month_total_points\<close> also sums the points of the awards in the month, but
  returns the sum over the logs only (every award with points is echoed into the logs as
  a \<^verbatim>\<open>BONUS\<close> row).
\<close>

definition points_between :: "diary \<Rightarrow> int \<Rightarrow> int \<Rightarrow> int" where
  "points_between s lo hi =
     sum_list (map points (filter (\<lambda>r. lo \<le> log_date r \<and> log_date r \<le> hi) (logs s)))"

definition get_month_total_points :: "diary \<Rightarrow> int \<Rightarrow> int \<Rightarrow> int" where
  "get_month_total_points s y m =
     (let (start_day, end_day) = month_range y m in points_between s start_day end_day)"

subsection \<open>Weekly bonus and badges\<close>

definition week_completions :: "diary \<Rightarrow> int \<Rightarrow> int \<Rightarrow> int \<Rightarrow> int" where
  "week_completions s hid week_start week_end =
     int (length (filter (\<lambda>r. habit_id r = hid \<and> kind r = COMPLETION \<and> completed r \<and>
                               week_start \<le> log_date r \<and> log_date r \<le> week_end) (logs s)))"

definition weekly_awards :: "diary \<Rightarrow> int \<Rightarrow> int \<Rightarrow> int \<Rightarrow> award_row list" where
  "weekly_awards s hid week_start week_end =
     filter (\<lambda>a. name a = ''WEEKLY_CONSISTENCY'' \<and> a_habit_id a = Some hid \<and>
                 week_start \<le> award_date a \<and> award_date a \<le> week_end) (awards s)"

definition award_weekly_consistency_bonus_if_eligible :: "Habit \<Rightarrow> pydate \<Rightarrow> diary \<Rightarrow> int \<times> diary" where
  "award_weekly_consistency_bonus_if_eligible habit log_day s =
     (let (iso_year, iso_week, iso_wday) = isocalendar log_day;
          week_start = iso_to_monday iso_year iso_week;
          week_end = week_start + 6;
          cnt = week_completions s (h_id habit) week_start week_end;
          already_awarded = length (weekly_awards s (h_id habit) week_start week_end)
      in if cnt \<ge> frequency_per_week habit \<and> already_awarded = 0 then
           (WEEKLY_CONSISTENCY_BONUS,
            s\<lparr>awards := awards s @
                 [\<lparr>name = ''WEEKLY_CONSISTENCY'', a_habit_id = Some (h_id habit),
                   award_date = toordinal log_day, a_points = WEEKLY_CONSISTENCY_BONUS,
                   period_start = Some week_start, period_end = Some week_end\<rparr>],
               logs := logs s @
                 [\<lparr>habit_id = h_id habit, log_date = toordinal log_day, completed = False,
                   row_notes = BonusNote cnt (frequency_per_week habit),
                   points = WEEKLY_CONSISTENCY_BONUS, kind = BONUS\<rparr>]\<rparr>)
         else (0, s))"

definition award_badge :: "int \<Rightarrow> int \<Rightarrow> string \<Rightarrow> diary \<Rightarrow> diary" where
  "award_badge hid when_day badge_name s =
     (let exists = length (filter (\<lambda>a. name a = badge_name \<and> a_habit_id a = Some hid \<and>
                                        award_date a = when_day) (awards s))
      in if exists \<noteq> 0 then s
         else s\<lparr>awards := awards s @
                  [\<lparr>name = badge_name, a_habit_id = Some hid, award_date = when_day,
                    a_points = 0, period_start = None, period_end = None\<rparr>],
                logs := logs s @
                  [\<lparr>habit_id = hid, log_date = when_day, completed = False,
                    row_notes = BadgeNote badge_name, points = 0, kind = BADGE\<rparr>]\<rparr>)"

definition get_total_completions :: "diary \<Rightarrow> int \<Rightarrow> int" where
  "get_total_completions s hid =
     int (length (filter (\<lambda>r. habit_id r = hid \<and> kind r = COMPLETION \<and> completed r) (logs s)))"

definition check_and_award_badges :: "Habit \<Rightarrow> pydate \<Rightarrow> diary \<Rightarrow> int \<times> diary" where
  "check_and_award_badges habit log_day s =
     (let badges_awarded_points = 0;
          streak = calculate_streak_length s (h_id habit) (toordinal log_day);
          s1 = (if streak = 7 then award_badge (h_id habit) (toordinal log_day) ''STREAK_7'' s else s);
          s2 = (if streak = 30 then award_badge (h_id habit) (toordinal log_day) ''STREAK_30'' s1 else s1);
          total_completions = get_total_completions s2 (h_id habit);
          s3 = (if total_completions = 30
                then award_badge (h_id habit) (toordinal log_day) ''COMPLETE_30'' s2 else s2);
          s4 = (if total_completions = 100
                then award_badge (h_id habit) (toordinal log_day) ''COMPLETE_100'' s3 else s3)
      in (badges_awarded_points, s4))"

subsection \<open>Logging a completion\<close>

text \<open>
  \<^verbatim>\<open>HabitDiary.log_completion\<close>. The day is the caller's \<^verbatim>\<open>log_date_value\<close> (or the
  clock's today when it is absent; the model takes the day). The result is the pair the
  code returns, or the error it raises, together with the store afterwards. A second
  call for a day that already has a \<^verbatim>\<open>COMPLETION\<close> row only appends a note row with
  \<^verbatim>\<open>completed = 0\<close> and no points; \<^verbatim>\<open>notes or "..."\<close> replaces an absent or empty
  note by the fixed text.
\<close>

definition repeat_note :: "string option \<Rightarrow> note_text" where
  "repeat_note notes_arg =
     (case notes_arg of None \<Rightarrow> RepeatNote
      | Some n \<Rightarrow> if n = [] then RepeatNote else UserNote n)"

definition first_note :: "string option \<Rightarrow> note_text" where
  "first_note notes_arg = (case notes_arg of None \<Rightarrow> NoNote | Some n \<Rightarrow> UserNote n)"

definition existing_completions :: "diary \<Rightarrow> int \<Rightarrow> int \<Rightarrow> nat" where
  "existing_completions s hid d =
     length (filter (\<lambda>r. habit_id r = hid \<and> log_date r = d \<and> kind r = COMPLETION) (logs s))"

definition log_completion :: "string \<Rightarrow> pydate \<Rightarrow> string option \<Rightarrow> diary \<Rightarrow> (error + int \<times> int) \<times> diary" where
  "log_completion habit_ref log_day notes_arg s =
     (case get_habit_by_id_or_name s habit_ref of
        Inl e \<Rightarrow> (Inl e, s)
      | Inr habit \<Rightarrow>
          if existing_completions s (h_id habit) (toordinal log_day) \<noteq> 0 then
            (let s1 = s\<lparr>logs := logs s @
                         [\<lparr>habit_id = h_id habit, log_date = toordinal log_day,
                           completed = False, row_notes = repeat_note notes_arg, points = 0,
                           kind = COMPLETION\<rparr>]\<rparr>
             in (Inr (0, get_month_total_points s1 (year log_day) (month log_day)), s1))
          else
            (let streak_length = calculate_streak_length s (h_id habit) (toordinal log_day);
                 pts = calculate_points_for_completion (difficulty habit) streak_length;
                 s1 = s\<lparr>logs := logs s @
                         [\<lparr>habit_id = h_id habit, log_date = toordinal log_day,
                           completed = True, row_notes = first_note notes_arg, points = pts,
                           kind = COMPLETION\<rparr>]\<rparr>;
                 (bonus_points, s2) = award_weekly_consistency_bonus_if_eligible habit log_day s1;
                 (badges_points, s3) = check_and_award_badges habit log_day s2;
                 total_points_now = get_month_total_points s3 (year log_day) (month log_day)
             in (Inr (pts + bonus_points + badges_points, total_points_now), s3)))"

section \<open>habit\_journal\<close>

text \<open>
  The second program, \<^verbatim>\<open>habit_journal.py\<close>. Its functions carry the prefix
  \<open>journal_\<close> where the diary has one of the same name. The tables are again lists of
  rows in insertion order. Left out are the columns no modelled operation reads
  (\<^verbatim>\<open>description\<close>, \<^verbatim>\<open>created_at\<close>, the badge's \<^verbatim>\<open>title\<close>, \<^verbatim>\<open>description\<close> and
  \<^verbatim>\<open>awarded_at\<close>) and \<^verbatim>\<open>completed\<close>, which is 1 in every row.

  \<^verbatim>\<open>log_completion\<close> takes the day as a string; the model takes the three numbers
  \<^verbatim>\<open>parse_date\<close> reads from it (a string of another shape is any triple that is not a
  valid date) and stores the day as its ordinal, which stands for the zero-padded string
  that \<^verbatim>\<open>cmd_log\<close> passes.
\<close>

record journal_habit =
  jh_id :: int
  jh_name :: string
  jh_is_active :: bool

record journal_log =
  jl_habit_id :: int
  jl_date :: int
  points_awarded :: int
  streak_count :: int
  jl_note :: string

record Badge =
  code :: string
  badge_habit_id :: "int option"
  points_at_award :: int

record journal =
  jhabits :: "journal_habit list"
  jlogs :: "journal_log list"
  badges :: "Badge list"

text \<open>\<^verbatim>\<open>str.strip\<close> on ASCII strings, and the decimal digits of an f-string number.\<close>

definition isspace :: "char \<Rightarrow> bool" where
  "isspace c = (c \<in> set [CHR 0x09, CHR 0x0A, CHR 0x0B, CHR 0x0C, CHR 0x0D,
                           CHR 0x1C, CHR 0x1D, CHR 0x1E, CHR 0x1F, CHR 0x20])"

definition strip :: "string \<Rightarrow> string" where
  "strip s = rev (dropWhile isspace (rev (dropWhile isspace s)))"

fun str_nat :: "nat \<Rightarrow> string" where
  "str_nat n = (if n < 10 then [char_of (48 + n)] else str_nat (n div 10) @ [char_of (48 + n mod 10)])"

declare str_nat.simps [simp del]

definition str_int :: "int \<Rightarrow> string" where
  "str_int i = (if i < 0 then CHR ''-'' # str_nat (nat (- i)) else str_nat (nat i))"

definition get_habit_by_name :: "journal \<Rightarrow> string \<Rightarrow> journal_habit option" where
  "get_habit_by_name s nm = find (\<lambda>h. jh_name h = strip nm) (jhabits s)"

definition get_total_points :: "journal \<Rightarrow> int" where
  "get_total_points s = sum_list (map points_awarded (jlogs s))"

definition count_logs_on_date :: "journal \<Rightarrow> int \<Rightarrow> int" where
  "count_logs_on_date s d = int (length (filter (\<lambda>r. jl_date r = d) (jlogs s)))"

definition has_log_on_date :: "journal \<Rightarrow> int \<Rightarrow> int \<Rightarrow> bool" where
  "has_log_on_date s hid d = (find (\<lambda>r. jl_habit_id r = hid \<and> jl_date r = d) (jlogs s) \<noteq> None)"

definition get_previous_day_streak :: "journal \<Rightarrow> int \<Rightarrow> int \<Rightarrow> int" where
  "get_previous_day_streak s hid d =
     (case find (\<lambda>r. jl_habit_id r = hid \<and> jl_date r = d - 1) (jlogs s) of
        None \<Rightarrow> 0
      | Some row \<Rightarrow> streak_count row)"

text \<open>
  \<^verbatim>\<open>_award_badge\<close> inserts and swallows the \<^verbatim>\<open>IntegrityError\<close> of the constraint
  \<^verbatim>\<open>UNIQUE(code, habit_id)\<close>. In SQLite a \<^verbatim>\<open>NULL\<close> is distinct from every value in a
  \<^verbatim>\<open>UNIQUE\<close> constraint, another \<^verbatim>\<open>NULL\<close> included: the insert conflicts only when
  \<^verbatim>\<open>habit_id\<close> is not \<^verbatim>\<open>NULL\<close> and a row has the same code and the same habit.
\<close>

definition badge_conflict :: "journal \<Rightarrow> string \<Rightarrow> int option \<Rightarrow> bool" where
  "badge_conflict s c hid =
     (hid \<noteq> None \<and> filter (\<lambda>b. code b = c \<and> badge_habit_id b = hid) (badges s) \<noteq> [])"

definition journal_award_badge :: "string \<Rightarrow> int option \<Rightarrow> journal \<Rightarrow> Badge option \<times> journal" where
  "journal_award_badge c hid s =
     (if badge_conflict s c hid then (None, s)
      else (let b = \<lparr>code = c, badge_habit_id = hid, points_at_award = get_total_points s\<rparr>
            in (Some b, s\<lparr>badges := badges s @ [b]\<rparr>)))"

fun points_threshold_loop :: "int \<Rightarrow> int list \<Rightarrow> journal \<Rightarrow> Badge list \<times> journal" where
  "points_threshold_loop total_points [] s = ([], s)"
| "points_threshold_loop total_points (threshold # rest) s =
     (let c = ''POINTS_'' @ str_int threshold;
          exists = (filter (\<lambda>b. code b = c \<and> badge_habit_id b = None) (badges s) \<noteq> []);
          (badge, s1) = (if \<not> exists \<and> total_points \<ge> threshold
                         then journal_award_badge c None s else (None, s));
          (awarded, s2) = points_threshold_loop total_points rest s1
      in ((case badge of None \<Rightarrow> [] | Some b \<Rightarrow> [b]) @ awarded, s2))"

definition maybe_award_points_threshold_badges :: "journal \<Rightarrow> Badge list \<times> journal" where
  "maybe_award_points_threshold_badges s =
     points_threshold_loop (get_total_points s) [100, 500, 1000, 2000, 5000] s"

definition maybe_award_first_step_badge :: "journal \<Rightarrow> Badge option \<times> journal" where
  "maybe_award_first_step_badge s =
     (if length (jlogs s) = 1 then journal_award_badge ''FIRST_STEP'' None s else (None, s))"

definition maybe_award_streak_badge :: "int \<Rightarrow> int \<Rightarrow> journal \<Rightarrow> Badge option \<times> journal" where
  "maybe_award_streak_badge hid streak s =
     (if streak \<in> set [3, 7, 14, 30, 60, 100]
      then journal_award_badge (''STREAK_'' @ str_int streak) (Some hid) s
      else (None, s))"

text \<open>
  \<^verbatim>\<open>HabitJournal.log_completion\<close>. The insert fails on \<^verbatim>\<open>UNIQUE(habit_id, date)\<close> when
  the habit already has a row for the day; the code turns that into its duplicate error.
  Both branches of the inner conditional of \<^verbatim>\<open>current_streak\<close> are 1 in the source.
\<close>

definition journal_log_completion ::
    "string \<Rightarrow> pydate \<Rightarrow> string \<Rightarrow> journal \<Rightarrow> (error + int \<times> int \<times> Badge list) \<times> journal" where
  "journal_log_completion habit_name iso_date note_arg s =
     (case get_habit_by_name s habit_name of
        None \<Rightarrow> (Inl HabitNotFound, s)
      | Some habit \<Rightarrow>
          if \<not> valid_date iso_date then (Inl InvalidDate, s)
          else
            (let hid = jh_id habit;
                 d = toordinal iso_date;
                 prev_streak = get_previous_day_streak s hid d;
                 current_streak = (if prev_streak > 0 then prev_streak + 1
                                   else (if has_log_on_date s hid (d - 1) then 1 else 1));
                 base_points = 10;
                 streak_bonus = min (max (current_streak - 1) 0 * 2) 20;
                 prior_completions_today = count_logs_on_date s d;
                 combo_bonus = (if prior_completions_today \<ge> 2 then 5 else 0);
                 awarded_points = base_points + streak_bonus + combo_bonus
             in if has_log_on_date s hid d then (Inl DuplicateEntry, s)
                else
                  (let s1 = s\<lparr>jlogs := jlogs s @
                              [\<lparr>jl_habit_id = hid, jl_date = d, points_awarded = awarded_points,
                                streak_count = current_streak, jl_note = strip note_arg\<rparr>]\<rparr>;
                       (first_step, s2) = maybe_award_first_step_badge s1;
                       (streak_badge, s3) = maybe_award_streak_badge hid current_streak s2;
                       (threshold_badges, s4) = maybe_award_points_threshold_badges s3
                   in (Inr (awarded_points, current_streak,
                            (case first_step of None \<Rightarrow> [] | Some b \<Rightarrow> [b]) @
                            (case streak_badge of None \<Rightarrow> [] | Some b \<Rightarrow> [b]) @
                            threshold_badges), s4))))"

text \<open>
  \<^verbatim>\<open>month_report\<close>: the total of the points of the log rows of the month. The range is
  computed as in \<^verbatim>\<open>month_range\<close> of the diary.
\<close>

definition journal_points_between :: "journal \<Rightarrow> int \<Rightarrow> int \<Rightarrow> int" where
  "journal_points_between s lo hi =
     sum_list (map points_awarded (filter (\<lambda>r. lo \<le> jl_date r \<and> jl_date r \<le> hi) (jlogs s)))"

definition month_report_points :: "journal \<Rightarrow> int \<Rightarrow> int \<Rightarrow> int" where
  "month_report_points s y m =
     (let start = ymd2ord y m 1;
          end_day = (if m = 12 then ymd2ord (y + 1) 1 1 - 1 else ymd2ord y (m + 1) 1 - 1)
      in journal_points_between s start end_day)"

section \<open>Both programs only append\<close>

text \<open>
  One store extends another when the habits are the same and the log and award tables
  of the first are an initial segment of those of the second: rows were added at the end,
  and no earlier row was changed or removed.
\<close>

definition diary_extends :: "diary \<Rightarrow> diary \<Rightarrow> bool" where
  "diary_extends s s' =
     (habits s' = habits s \<and> prefix (logs s) (logs s') \<and> prefix (awards s) (awards s'))"

definition journal_extends :: "journal \<Rightarrow> journal \<Rightarrow> bool" where
  "journal_extends s s' =
     (jhabits s' = jhabits s \<and> prefix (jlogs s) (jlogs s') \<and> prefix (badges s) (badges s'))"

lemma diary_extends_refl: "diary_extends s s"
  by (simp add: diary_extends_def)

lemma diary_extends_trans: "diary_extends s t \<Longrightarrow> diary_extends t u \<Longrightarrow> diary_extends s u"
  by (auto simp: diary_extends_def)

lemma award_badge_extends: "diary_extends s (award_badge hid d nm s)"
  by (simp add: diary_extends_def award_badge_def Let_def)

lemma award_weekly_extends:
  "diary_extends s (snd (award_weekly_consistency_bonus_if_eligible habit log_day s))"
  by (simp add: diary_extends_def award_weekly_consistency_bonus_if_eligible_def Let_def
      split: prod.splits)

lemma check_and_award_badges_extends:
  "diary_extends s (snd (check_and_award_badges habit log_day s))"
  unfolding check_and_award_badges_def Let_def snd_conv
  by (intro diary_extends_trans[OF _ award_badge_extends] diary_extends_refl
      | simp only: if_split[where P="\<lambda>x. diary_extends s x"] | intro conjI impI)+

lemma log_completion_extends: "diary_extends s (snd (log_completion habit_ref log_day notes_arg s))"
proof (cases "get_habit_by_id_or_name s habit_ref")
  case (Inl e)
  then show ?thesis by (simp add: log_completion_def diary_extends_refl)
next
  case (Inr habit)
  show ?thesis
  proof (cases "existing_completions s (h_id habit) (toordinal log_day) \<noteq> 0")
    case True
    with Inr show ?thesis by (simp add: log_completion_def diary_extends_def Let_def)
  next
    case False
    define s1 where "s1 = s\<lparr>logs := logs s @
                         [\<lparr>habit_id = h_id habit, log_date = toordinal log_day,
                           completed = True, row_notes = first_note notes_arg,
                           points = calculate_points_for_completion (difficulty habit)
                                      (calculate_streak_length s (h_id habit) (toordinal log_day)),
                           kind = COMPLETION\<rparr>]\<rparr>"
    define s2 where "s2 = snd (award_weekly_consistency_bonus_if_eligible habit log_day s1)"
    define s3 where "s3 = snd (check_and_award_badges habit log_day s2)"
    have "snd (log_completion habit_ref log_day notes_arg s) = s3"
      using Inr False by (simp add: log_completion_def Let_def s1_def s2_def s3_def split: prod.splits)
    moreover have "diary_extends s s1" by (simp add: s1_def diary_extends_def)
    moreover have "diary_extends s1 s2" unfolding s2_def by (rule award_weekly_extends)
    moreover have "diary_extends s2 s3" unfolding s3_def by (rule check_and_award_badges_extends)
    ultimately show ?thesis by (metis diary_extends_trans)
  qed
qed

lemma journal_extends_refl: "journal_extends s s"
  by (simp add: journal_extends_def)

lemma journal_extends_trans:
  "journal_extends s t \<Longrightarrow> journal_extends t u \<Longrightarrow> journal_extends s u"
  by (auto simp: journal_extends_def)

lemma journal_award_badge_extends: "journal_extends s (snd (journal_award_badge c hid s))"
  by (simp add: journal_extends_def journal_award_badge_def Let_def)

lemma points_threshold_loop_extends:
  "journal_extends s (snd (points_threshold_loop tp ts s))"
proof (induction ts arbitrary: s)
  case Nil
  then show ?case by (simp add: journal_extends_refl)
next
  case (Cons t ts)
  define c where "c = ''POINTS_'' @ str_int t"
  define s1 where "s1 = (if \<not> (filter (\<lambda>b. code b = c \<and> badge_habit_id b = None) (badges s) \<noteq> [])
                             \<and> tp \<ge> t
                         then snd (journal_award_badge c None s) else s)"
  have step: "snd (points_threshold_loop tp (t # ts) s) = snd (points_threshold_loop tp ts s1)"
    by (simp add: Let_def c_def s1_def split: prod.splits)
  have "journal_extends s s1"
    by (simp add: s1_def journal_award_badge_extends journal_extends_refl)
  then show ?case
    unfolding step using Cons.IH journal_extends_trans by blast
qed

lemma maybe_award_first_step_badge_extends:
  "journal_extends s (snd (maybe_award_first_step_badge s))"
  by (simp add: maybe_award_first_step_badge_def journal_award_badge_extends journal_extends_refl)

lemma maybe_award_streak_badge_extends:
  "journal_extends s (snd (maybe_award_streak_badge hid k s))"
proof (cases "k \<in> set [3, 7, 14, 30, 60, 100]")
  case True
  then have "maybe_award_streak_badge hid k s = journal_award_badge (''STREAK_'' @ str_int k) (Some hid) s"
    unfolding maybe_award_streak_badge_def by (rule if_P)
  then show ?thesis by (simp only: journal_award_badge_extends)
next
  case False
  then have "maybe_award_streak_badge hid k s = (None, s)"
    unfolding maybe_award_streak_badge_def by (rule if_not_P)
  then show ?thesis by (simp only: snd_conv journal_extends_refl)
qed

lemma maybe_award_points_threshold_badges_extends:
  "journal_extends s (snd (maybe_award_points_threshold_badges s))"
  unfolding maybe_award_points_threshold_badges_def by (rule points_threshold_loop_extends)

lemma journal_log_completion_extends:
  "journal_extends s (snd (journal_log_completion habit_name iso_date note_arg s))"
proof (cases "get_habit_by_name s habit_name")
  case None
  then show ?thesis by (simp add: journal_log_completion_def journal_extends_refl)
next
  case (Some habit)
  show ?thesis
  proof (cases "valid_date iso_date \<and> \<not> has_log_on_date s (jh_id habit) (toordinal iso_date)")
    case False
    with Some show ?thesis
      by (auto simp: journal_log_completion_def journal_extends_refl Let_def)
  next
    case True
    define k where "k = (if get_previous_day_streak s (jh_id habit) (toordinal iso_date) > 0
                         then get_previous_day_streak s (jh_id habit) (toordinal iso_date) + 1 else 1)"
    define row where "row = \<lparr>jl_habit_id = jh_id habit, jl_date = toordinal iso_date,
        points_awarded = 10 + min (max (k - 1) 0 * 2) 20
           + (if count_logs_on_date s (toordinal iso_date) \<ge> 2 then 5 else 0),
        streak_count = k, jl_note = strip note_arg\<rparr>"
    define s1 where "s1 = s\<lparr>jlogs := jlogs s @ [row]\<rparr>"
    define s2 where "s2 = snd (maybe_award_first_step_badge s1)"
    define s3 where "s3 = snd (maybe_award_streak_badge (jh_id habit) k s2)"
    define s4 where "s4 = snd (maybe_award_points_threshold_badges s3)"
    have "snd (journal_log_completion habit_name iso_date note_arg s) = s4"
      using Some True
      by (simp add: journal_log_completion_def Let_def s1_def s2_def s3_def s4_def k_def row_def
          split: prod.splits)
    moreover have "journal_extends s s1" by (simp add: s1_def journal_extends_def)
    moreover have "journal_extends s1 s2"
      unfolding s2_def by (rule maybe_award_first_step_badge_extends)
    moreover have "journal_extends s2 s3"
      unfolding s3_def by (rule maybe_award_streak_badge_extends)
    moreover have "journal_extends s3 s4"
      unfolding s4_def by (rule maybe_award_points_threshold_badges_extends)
    ultimately show ?thesis by (metis journal_extends_trans)
  qed
qed

text \<open>
  Claim C9. A call of \<open>log_completion\<close>, in either program and whatever it returns or
  raises, leaves the habits as they were and only adds rows at the end of the log table
  and of the award (badge) table. Every row stored before the call, with its points and
  (in the journal) its streak snapshot, is therefore still there unchanged, also when the
  completion is backdated.
\<close>

theorem log_completion_append_only:
  "diary_extends s (snd (log_completion habit_ref log_day notes_arg s)) \<and>
   journal_extends j (snd (journal_log_completion habit_name iso_date note_arg j))"
  by (simp add: log_completion_extends journal_log_completion_extends)

section \<open>Duplicate logging\<close>

definition has_completion :: "diary \<Rightarrow> int \<Rightarrow> int \<Rightarrow> bool" where
  "has_completion s hid d =
     (filter (\<lambda>r. habit_id r = hid \<and> log_date r = d \<and> kind r = COMPLETION \<and> completed r) (logs s) \<noteq> [])"

lemma has_completion_existing:
  "has_completion s hid d \<Longrightarrow> existing_completions s hid d \<noteq> 0"
  unfolding has_completion_def existing_completions_def length_0_conv filter_empty_conv
  by blast








subsection \<open>Example stores\<close>

text \<open>
  1 January 2024 is a Monday. \<open>journal1\<close> and \<open>diary1\<close> are the stores after the habit
  ``read'' was logged on that day in an empty journal and an empty diary; in \<open>journal2\<close>
  the habit ``run'' was logged on the same day as well.
\<close>

definition day1 :: pydate where
  "day1 = \<lparr>year = 2024, month = 1, day = 1\<rparr>"

definition journal_habits :: "journal_habit list" where
  "journal_habits = [\<lparr>jh_id = 1, jh_name = ''read'', jh_is_active = True\<rparr>,
                     \<lparr>jh_id = 2, jh_name = ''run'', jh_is_active = True\<rparr>,
                     \<lparr>jh_id = 3, jh_name = ''swim'', jh_is_active = True\<rparr>]"

definition journal1 :: journal where
  "journal1 = \<lparr>jhabits = journal_habits,
               jlogs = [\<lparr>jl_habit_id = 1, jl_date = 738886, points_awarded = 10,
                         streak_count = 1, jl_note = []\<rparr>],
               badges = [\<lparr>code = ''FIRST_STEP'', badge_habit_id = None, points_at_award = 10\<rparr>]\<rparr>"

definition journal2 :: journal where
  "journal2 = journal1\<lparr>jlogs := jlogs journal1 @
                [\<lparr>jl_habit_id = 2, jl_date = 738886, points_awarded = 10,
                  streak_count = 1, jl_note = []\<rparr>]\<rparr>"

definition habit1 :: Habit where
  "habit1 = \<lparr>h_id = 1, h_name = ''read'', difficulty = 1, frequency_per_week = 5,
             is_active = True\<rparr>"

definition diary1 :: diary where
  "diary1 = \<lparr>habits = [habit1],
             logs = [\<lparr>habit_id = 1, log_date = 738886, completed = True, row_notes = NoNote,
                      points = 10, kind = COMPLETION\<rparr>],
             awards = []\<rparr>"

lemma toordinal_day1: "toordinal day1 = 738886"
  by (simp add: day1_def toordinal_def ymd2ord_def days_before_year_def days_before_month_def
      is_leap_def)

lemma valid_day1: "valid_date day1"
  by (simp add: day1_def valid_date_def days_in_month_def)


lemma journal_lookup_swim:
  "get_habit_by_name journal2 ''swim'' = Some \<lparr>jh_id = 3, jh_name = ''swim'', jh_is_active = True\<rparr>"
  by (simp add: get_habit_by_name_def journal2_def journal1_def journal_habits_def strip_def
      isspace_def)




section \<open>The combo bonus of the journal\<close>

lemma journal_log_completion_points:
  assumes "fst (journal_log_completion nm d note_arg s) = Inr (pts, streak, earned)"
  shows "pts = 10 + min (max (streak - 1) 0 * 2) 20 +
           (if 2 \<le> count_logs_on_date s (toordinal d) then 5 else 0)"
proof (cases "get_habit_by_name s nm")
  case None
  with assms show ?thesis by (simp add: journal_log_completion_def)
next
  case (Some habit)
  with assms have ok: "valid_date d" "\<not> has_log_on_date s (jh_id habit) (toordinal d)"
    by (auto simp: journal_log_completion_def Let_def split: if_splits)
  define k where "k = (if 0 < get_previous_day_streak s (jh_id habit) (toordinal d)
                       then get_previous_day_streak s (jh_id habit) (toordinal d) + 1 else 1)"
  define p where "p = 10 + min (max (k - 1) 0 * 2) 20 +
                        (if 2 \<le> count_logs_on_date s (toordinal d) then 5 else 0)"
  have "\<exists>e. fst (journal_log_completion nm d note_arg s) = Inr (p, k, e)"
    using Some ok by (simp add: journal_log_completion_def Let_def split_beta k_def p_def)
  with assms have "pts = p" "streak = k"
    by auto
  then show ?thesis
    by (simp add: p_def)
qed

text \<open>
  Claim C10. When the journal's \<open>journal_log_completion\<close> succeeds, the points it awards
  are 10, plus 2 for each day of the streak beyond the first (at most 20), plus 5 exactly
  when the log table already held at least two rows for that day before the new row. The
  count is over the rows of that day of all habits: \<open>count_logs_on_date\<close> does not look
  at the habit of a row.
\<close>

theorem journal_combo_bonus:
  "fst (journal_log_completion nm d note_arg s) = Inr (pts, streak, earned) \<Longrightarrow>
   pts = 10 + min (max (streak - 1) 0 * 2) 20 +
           (if 2 \<le> count_logs_on_date s (toordinal d) then 5 else 0) \<and>
   count_logs_on_date s (toordinal d) =
     int (length (filter (\<lambda>r. jl_date r = toordinal d) (jlogs s)))"
  by (rule conjI, erule journal_log_completion_points, simp add: count_logs_on_date_def)

lemma points_threshold_loop_none:
  "list_all (\<lambda>t. tp < t) ts \<Longrightarrow> points_threshold_loop tp ts s = ([], s)"
  by (induction ts) simp_all

lemma journal_log_completion_success:
  assumes hab: "get_habit_by_name s nm = Some habit"
    and valid: "valid_date d"
    and fresh: "\<not> has_log_on_date s (jh_id habit) (toordinal d)"
    and k: "k = (if 0 < get_previous_day_streak s (jh_id habit) (toordinal d)
                 then get_previous_day_streak s (jh_id habit) (toordinal d) + 1 else 1)"
    and p: "p = 10 + min (max (k - 1) 0 * 2) 20 +
                  (if 2 \<le> count_logs_on_date s (toordinal d) then 5 else 0)"
    and s1: "s1 = s\<lparr>jlogs := jlogs s @
                    [\<lparr>jl_habit_id = jh_id habit, jl_date = toordinal d, points_awarded = p,
                      streak_count = k, jl_note = strip note_arg\<rparr>]\<rparr>"
    and b1: "maybe_award_first_step_badge s1 = (b1, s2)"
    and b2: "maybe_award_streak_badge (jh_id habit) k s2 = (b2, s3)"
    and b3: "maybe_award_points_threshold_badges s3 = (bs, s4)"
  shows "journal_log_completion nm d note_arg s =
           (Inr (p, k, (case b1 of None \<Rightarrow> [] | Some b \<Rightarrow> [b]) @
                       (case b2 of None \<Rightarrow> [] | Some b \<Rightarrow> [b]) @ bs), s4)"
proof -
  have k': "(if 0 < get_previous_day_streak s (jh_id habit) (toordinal d)
             then get_previous_day_streak s (jh_id habit) (toordinal d) + 1
             else if has_log_on_date s (jh_id habit) (toordinal d - 1) then 1 else 1) = k"
    by (simp add: k)
  show ?thesis
    unfolding journal_log_completion_def Let_def hab option.case k' p[symmetric] s1[symmetric]
    using valid fresh by (simp add: b1 b2 b3)
qed

theorem journal_combo_bonus_witness:
  "fst (journal_log_completion ''swim'' day1 [] journal2) = Inr (15, 1, []) \<and>
   (15::int) = 10 + min (max (1 - 1) 0 * 2) 20 +
      (if 2 \<le> count_logs_on_date journal2 (toordinal day1) then 5 else 0) \<and>
   map jl_habit_id (filter (\<lambda>r. jl_date r = toordinal day1) (jlogs journal2)) = [1, 2]"
proof -
  define s1 where "s1 = journal2\<lparr>jlogs := jlogs journal2 @
                    [\<lparr>jl_habit_id = 3, jl_date = toordinal day1, points_awarded = 15,
                      streak_count = 1, jl_note = strip []\<rparr>]\<rparr>"
  have prev: "get_previous_day_streak journal2 3 (toordinal day1) = 0"
    by (simp add: get_previous_day_streak_def journal2_def journal1_def toordinal_day1)
  have cnt: "count_logs_on_date journal2 (toordinal day1) = 2"
    by (simp add: count_logs_on_date_def journal2_def journal1_def toordinal_day1)
  have fresh: "\<not> has_log_on_date journal2 3 (toordinal day1)"
    by (simp add: has_log_on_date_def journal2_def journal1_def toordinal_day1)
  have b1: "maybe_award_first_step_badge s1 = (None, s1)"
    by (simp add: maybe_award_first_step_badge_def s1_def journal2_def journal1_def)
  have b2: "maybe_award_streak_badge 3 1 s1 = (None, s1)"
    by (simp add: maybe_award_streak_badge_def)
  have tp: "get_total_points s1 = 35"
    by (simp add: get_total_points_def s1_def journal2_def journal1_def)
  have b3: "maybe_award_points_threshold_badges s1 = ([], s1)"
    unfolding maybe_award_points_threshold_badges_def tp
    by (rule points_threshold_loop_none) simp
  have run: "journal_log_completion ''swim'' day1 [] journal2 =
      (Inr (15, 1, (case None of None \<Rightarrow> [] | Some b \<Rightarrow> [b]) @
                   (case None of None \<Rightarrow> [] | Some b \<Rightarrow> [b]) @ []), s1)"
    by (rule journal_log_completion_success[OF journal_lookup_swim valid_day1,
          where ?s1.0 = s1 and ?s2.0 = s1 and ?s3.0 = s1])
       (simp_all add: prev cnt fresh b1[unfolded s1_def] b2[unfolded s1_def] b3[unfolded s1_def] s1_def)
  then have res: "fst (journal_log_completion ''swim'' day1 [] journal2) = Inr (15, 1, [])"
    by simp
  have rows: "map jl_habit_id (filter (\<lambda>r. jl_date r = toordinal day1) (jlogs journal2)) = [1, 2]"
    by (simp add: journal2_def journal1_def toordinal_day1)
  from journal_combo_bonus[OF res] res rows show ?thesis
    by blast
qed

section \<open>Facts about the calendar\<close>

lemma div_step:
  fixes n c :: int
  assumes "0 < c"
  shows "n div c = (n - 1) div c + (if n mod c = 0 then 1 else 0)"
proof -
  define q where "q = n div c"
  define r where "r = n mod c"
  have n: "n = c * q + r"
    by (simp add: q_def r_def)
  have r: "0 \<le> r" "r < c"
    using assms by (simp_all add: r_def)
  show ?thesis
  proof (cases "r = 0")
    case True
    have "n - 1 = c * (q - 1) + (c - 1)"
      by (simp add: n True algebra_simps)
    then have "(n - 1) div c = q - 1"
      by (rule int_div_pos_eq) (use assms in simp_all)
    with True show ?thesis
      by (simp add: q_def[symmetric] r_def[symmetric])
  next
    case False
    have "n - 1 = c * q + (r - 1)"
      by (simp add: n)
    then have "(n - 1) div c = q"
      by (rule int_div_pos_eq) (use r False in simp_all)
    with False show ?thesis
      by (simp add: q_def[symmetric] r_def[symmetric])
  qed
qed

lemma mod_400_100: "(y::int) mod 400 = 0 \<Longrightarrow> y mod 100 = 0"
proof -
  assume "y mod 400 = 0"
  then have "400 dvd y" by (simp add: mod_eq_0_iff_dvd)
  moreover have "(100::int) dvd 400" by simp
  ultimately have "100 dvd y" by (rule dvd_trans[rotated])
  then show ?thesis by (simp add: mod_eq_0_iff_dvd)
qed

lemma mod_100_4: "(y::int) mod 100 = 0 \<Longrightarrow> y mod 4 = 0"
proof -
  assume "y mod 100 = 0"
  then have "100 dvd y" by (simp add: mod_eq_0_iff_dvd)
  moreover have "(4::int) dvd 100" by simp
  ultimately have "4 dvd y" by (rule dvd_trans[rotated])
  then show ?thesis by (simp add: mod_eq_0_iff_dvd)
qed

lemma year_length:
  "days_before_year (y + 1) = days_before_year y + (if is_leap y then 366 else 365)"
proof -
  define a where "a = (y - 1) div 4"
  define b where "b = (y - 1) div 100"
  define c where "c = (y - 1) div 400"
  have d4: "y div 4 = a + (if y mod 4 = 0 then 1 else 0)"
    unfolding a_def by (rule div_step) simp
  have d100: "y div 100 = b + (if y mod 100 = 0 then 1 else 0)"
    unfolding b_def by (rule div_step) simp
  have d400: "y div 400 = c + (if y mod 400 = 0 then 1 else 0)"
    unfolding c_def by (rule div_step) simp
  have next_year: "days_before_year (y + 1) = y * 365 + y div 4 - y div 100 + y div 400"
    by (simp add: days_before_year_def)
  have this_year: "days_before_year y = (y - 1) * 365 + a - b + c"
    by (simp add: days_before_year_def Let_def a_def b_def c_def)
  consider (common) "y mod 4 \<noteq> 0"
    | (leap4) "y mod 4 = 0" "y mod 100 \<noteq> 0"
    | (century) "y mod 100 = 0" "y mod 400 \<noteq> 0"
    | (leap400) "y mod 400 = 0"
    by (cases "y mod 4 = 0"; cases "y mod 100 = 0"; cases "y mod 400 = 0") simp_all
  then show ?thesis
  proof cases
    case common
    then have "y mod 100 \<noteq> 0" "y mod 400 \<noteq> 0"
      using mod_100_4[of y] mod_400_100[of y] by auto
    with common show ?thesis
      unfolding next_year this_year d4 d100 d400 is_leap_def by (simp add: algebra_simps)
  next
    case leap4
    then have "y mod 400 \<noteq> 0"
      using mod_400_100[of y] by auto
    with leap4 show ?thesis
      unfolding next_year this_year d4 d100 d400 is_leap_def by (simp add: algebra_simps)
  next
    case century
    then have "y mod 4 = 0"
      using mod_100_4[of y] by auto
    with century show ?thesis
      unfolding next_year this_year d4 d100 d400 is_leap_def by (simp add: algebra_simps)
  next
    case leap400
    then have "y mod 100 = 0" "y mod 4 = 0"
      using mod_100_4[of y] mod_400_100[of y] by auto
    with leap400 show ?thesis
      unfolding next_year this_year d4 d100 d400 is_leap_def by (simp add: algebra_simps)
  qed
qed

lemma days_before_year_mono: "y \<le> y' \<Longrightarrow> days_before_year y \<le> days_before_year y'"
proof (induction y' rule: int_ge_induct)
  case base
  then show ?case by simp
next
  case (step i)
  then show ?case
    using year_length[of i] by (simp split: if_splits)
qed

lemma month_cases:
  "1 \<le> m \<Longrightarrow> m \<le> 12 \<Longrightarrow>
   m = 1 \<or> m = 2 \<or> m = 3 \<or> m = 4 \<or> m = 5 \<or> m = 6 \<or> m = 7 \<or> m = 8 \<or> m = 9 \<or>
   m = 10 \<or> m = 11 \<or> m = (12::int)"
  by presburger

lemma days_before_month_next:
  "1 \<le> m \<Longrightarrow> m < 12 \<Longrightarrow> days_before_month y (m + 1) = days_before_month y m + days_in_month y m"
  using month_cases[of m]
  by (auto simp: days_before_month_def days_in_month_def)

lemma days_before_month_last:
  "days_before_month y 12 + 31 = (if is_leap y then 366 else 365)"
  by (simp add: days_before_month_def)

lemma days_in_month_pos: "28 \<le> days_in_month y m"
  by (simp add: days_in_month_def)

text \<open>The day after the last day of a month is the first day of the next month.\<close>

definition month_first :: "int \<Rightarrow> int \<Rightarrow> int" where
  "month_first y m = fst (month_range y m)"

definition month_last :: "int \<Rightarrow> int \<Rightarrow> int" where
  "month_last y m = snd (month_range y m)"

lemma month_first_eq: "month_first y m = days_before_year y + days_before_month y m + 1"
  by (simp add: month_first_def month_range_def Let_def ymd2ord_def)

lemma month_last_eq:
  "1 \<le> m \<Longrightarrow> m \<le> 12 \<Longrightarrow>
   month_last y m = days_before_year y + days_before_month y m + days_in_month y m"
proof (cases "m = 12")
  case True
  then show ?thesis
    using year_length[of y] days_before_month_last[of y]
    by (simp add: month_last_def month_range_def Let_def ymd2ord_def days_in_month_def
        days_before_month_def)
next
  case False
  assume "1 \<le> m" "m \<le> 12"
  with False have "m < 12" by simp
  with \<open>1 \<le> m\<close> show ?thesis
    using days_before_month_next[of m y]
    by (simp add: month_last_def month_range_def Let_def ymd2ord_def)
qed

lemma days_before_month_mono:
  assumes "1 \<le> a" "a \<le> b" "b \<le> 12"
  shows "days_before_month y a + days_in_month y a \<le> days_before_month y b + days_in_month y b"
proof -
  have "\<And>k. 0 \<le> k \<Longrightarrow> a + k \<le> 12 \<Longrightarrow>
      days_before_month y a + days_in_month y a \<le> days_before_month y (a + k) + days_in_month y (a + k)"
  proof -
    fix k :: int
    assume "0 \<le> k"
    then show "a + k \<le> 12 \<Longrightarrow>
      days_before_month y a + days_in_month y a \<le> days_before_month y (a + k) + days_in_month y (a + k)"
    proof (induction k rule: int_ge_induct)
      case base
      then show ?case by simp
    next
      case (step i)
      then have ih: "days_before_month y a + days_in_month y a
                       \<le> days_before_month y (a + i) + days_in_month y (a + i)"
        by simp
      have "days_before_month y (a + i + 1) = days_before_month y (a + i) + days_in_month y (a + i)"
        using step.hyps step.prems assms(1) by (intro days_before_month_next) simp_all
      with ih days_in_month_pos[of y "a + i + 1"] show ?case
        by (simp add: add.assoc)
    qed
  qed
  from this[of "b - a"] assms show ?thesis by simp
qed

lemma month_first_le_last: "1 \<le> m \<Longrightarrow> m \<le> 12 \<Longrightarrow> month_first y m \<le> month_last y m"
  using days_in_month_pos[of y m] by (simp add: month_first_eq month_last_eq)

lemma month_last_bound:
  assumes "1 \<le> m" "m \<le> 12"
  shows "month_last y m \<le> days_before_year (y + 1)"
proof -
  have "days_before_month y m + days_in_month y m \<le> days_before_month y 12 + days_in_month y 12"
    using assms by (intro days_before_month_mono) simp_all
  also have "\<dots> = (if is_leap y then 366 else 365)"
    using days_before_month_last[of y] by (simp add: days_in_month_def)
  finally show ?thesis
    using assms by (simp add: month_last_eq year_length)
qed

lemma days_before_month_nonneg: "0 \<le> days_before_month y m"
  by (simp add: days_before_month_def)

lemma months_ordered:
  assumes m1: "1 \<le> m1" "m1 \<le> 12" and m2: "1 \<le> m2" "m2 \<le> 12"
    and less: "y1 < y2 \<or> (y1 = y2 \<and> m1 < m2)"
  shows "month_last y1 m1 < month_first y2 m2"
proof (cases "y1 < y2")
  case True
  have "month_last y1 m1 \<le> days_before_year (y1 + 1)"
    using m1 by (rule month_last_bound)
  also have "\<dots> \<le> days_before_year y2"
    using True by (intro days_before_year_mono) simp
  also have "\<dots> < month_first y2 m2"
    using days_before_month_nonneg[of y2 m2] by (simp add: month_first_eq)
  finally show ?thesis .
next
  case False
  with less have eq: "y1 = y2" and lt: "m1 < m2" by auto
  from lt m2 have m1': "m1 < 12" by simp
  have "days_before_month y1 m1 + days_in_month y1 m1 = days_before_month y1 (m1 + 1)"
    using m1 m1' by (simp add: days_before_month_next)
  moreover have "days_before_month y1 (m1 + 1) \<le> days_before_month y1 m2"
  proof (cases "m1 + 1 = m2")
    case True
    then show ?thesis by simp
  next
    case False
    with lt have "m1 + 1 \<le> m2 - 1" by simp
    then have "days_before_month y1 (m1 + 1) + days_in_month y1 (m1 + 1)
                \<le> days_before_month y1 (m2 - 1) + days_in_month y1 (m2 - 1)"
      using m1 m2 by (intro days_before_month_mono) simp_all
    moreover have "days_before_month y1 (m2 - 1 + 1) = days_before_month y1 (m2 - 1) + days_in_month y1 (m2 - 1)"
      using m1 m2 lt by (intro days_before_month_next) simp_all
    ultimately show ?thesis
      using days_in_month_pos[of y1 "m1 + 1"] by simp
  qed
  ultimately show ?thesis
    using m1 eq by (simp add: month_first_eq month_last_eq)
qed

section \<open>Monthly totals\<close>

definition in_month :: "int \<Rightarrow> int \<Rightarrow> int \<Rightarrow> bool" where
  "in_month y m d = (month_first y m \<le> d \<and> d \<le> month_last y m)"

lemma get_month_total_points_eq:
  "get_month_total_points s y m =
     sum_list (map points (filter (\<lambda>r. in_month y m (log_date r)) (logs s)))"
  by (simp add: get_month_total_points_def points_between_def in_month_def month_first_def
      month_last_def split_beta)

lemma month_report_points_eq:
  "month_report_points j y m =
     sum_list (map points_awarded (filter (\<lambda>r. in_month y m (jl_date r)) (jlogs j)))"
  by (simp add: month_report_points_def journal_points_between_def in_month_def month_first_def
      month_last_def month_range_def Let_def)

lemma months_disjoint:
  assumes "1 \<le> m1" "m1 \<le> 12" "1 \<le> m2" "m2 \<le> 12" "(y1, m1) \<noteq> (y2, m2)"
  shows "\<not> (in_month y1 m1 d \<and> in_month y2 m2 d)"
proof -
  consider "y1 < y2 \<or> (y1 = y2 \<and> m1 < m2)" | "y2 < y1 \<or> (y2 = y1 \<and> m2 < m1)"
    using assms(5) by (cases "y1 < y2"; cases "y2 < y1"; cases "m1 < m2"; cases "m2 < m1") auto
  then show ?thesis
  proof cases
    case 1
    then have "month_last y1 m1 < month_first y2 m2"
      using assms by (intro months_ordered) simp_all
    then show ?thesis by (auto simp: in_month_def)
  next
    case 2
    then have "month_last y2 m2 < month_first y1 m1"
      using assms by (intro months_ordered) simp_all
    then show ?thesis by (auto simp: in_month_def)
  qed
qed

lemma sum_list_filter_disjoint:
  fixes f :: "'a \<Rightarrow> int"
  assumes "\<And>x. \<not> (P x \<and> Q x)"
  shows "sum_list (map f (filter (\<lambda>x. P x \<or> Q x) xs)) =
         sum_list (map f (filter P xs)) + sum_list (map f (filter Q xs))"
  using assms by (induction xs) auto

text \<open>
  Claim C7. The monthly total of either program is the sum of the points of the log rows
  whose day lies between the first and the last day of the month, both included; it does
  not read the awards. For two different months the two totals add up to the sum of the
  points of the log rows whose day lies in one of the two months.
\<close>

theorem month_totals_additive:
  assumes "1 \<le> m1" "m1 \<le> 12" "1 \<le> m2" "m2 \<le> 12" "(y1, m1) \<noteq> (y2, m2)"
  shows "get_month_total_points s y1 m1 + get_month_total_points s y2 m2 =
           sum_list (map points
             (filter (\<lambda>r. in_month y1 m1 (log_date r) \<or> in_month y2 m2 (log_date r)) (logs s))) \<and>
         month_report_points j y1 m1 + month_report_points j y2 m2 =
           sum_list (map points_awarded
             (filter (\<lambda>r. in_month y1 m1 (jl_date r) \<or> in_month y2 m2 (jl_date r)) (jlogs j))) \<and>
         get_month_total_points s y1 m1 =
           sum_list (map points (filter (\<lambda>r. in_month y1 m1 (log_date r)) (logs s))) \<and>
         month_report_points j y1 m1 =
           sum_list (map points_awarded (filter (\<lambda>r. in_month y1 m1 (jl_date r)) (jlogs j))) \<and>
         get_month_total_points (s\<lparr>awards := a\<rparr>) y1 m1 = get_month_total_points s y1 m1"
proof -
  have disj: "\<And>d. \<not> (in_month y1 m1 d \<and> in_month y2 m2 d)"
    using assms by (rule months_disjoint)
  have "sum_list (map points
          (filter (\<lambda>r. in_month y1 m1 (log_date r) \<or> in_month y2 m2 (log_date r)) (logs s))) =
        get_month_total_points s y1 m1 + get_month_total_points s y2 m2"
    unfolding get_month_total_points_eq by (rule sum_list_filter_disjoint) (rule disj)
  moreover have "sum_list (map points_awarded
          (filter (\<lambda>r. in_month y1 m1 (jl_date r) \<or> in_month y2 m2 (jl_date r)) (jlogs j))) =
        month_report_points j y1 m1 + month_report_points j y2 m2"
    unfolding month_report_points_eq by (rule sum_list_filter_disjoint) (rule disj)
  ultimately show ?thesis
    by (simp add: get_month_total_points_eq month_report_points_eq)
qed

text \<open>
  When the second month follows the first, the two months together are one range of days:
  the sum of the two totals is the total over that range.
\<close>

lemma next_month_first:
  assumes "1 \<le> m" "m \<le> 12"
  shows "month_first (if m = 12 then y + 1 else y) (if m = 12 then 1 else m + 1) = month_last y m + 1"
  by (simp add: month_first_def month_last_def month_range_def Let_def)

lemma points_between_split:
  assumes "lo \<le> mid + 1" "mid \<le> hi"
  shows "points_between s lo hi = points_between s lo mid + points_between s (mid + 1) hi"
proof -
  have "filter (\<lambda>r. lo \<le> log_date r \<and> log_date r \<le> hi) (logs s) =
        filter (\<lambda>r. (lo \<le> log_date r \<and> log_date r \<le> mid) \<or>
                    (mid + 1 \<le> log_date r \<and> log_date r \<le> hi)) (logs s)"
    using assms by (intro filter_cong) auto
  then have "points_between s lo hi =
      sum_list (map points (filter (\<lambda>r. (lo \<le> log_date r \<and> log_date r \<le> mid) \<or>
                                         (mid + 1 \<le> log_date r \<and> log_date r \<le> hi)) (logs s)))"
    unfolding points_between_def by (rule arg_cong)
  also have "\<dots> = points_between s lo mid + points_between s (mid + 1) hi"
    unfolding points_between_def by (rule sum_list_filter_disjoint) auto
  finally show ?thesis .
qed

lemma consecutive_months_additive:
  assumes "1 \<le> m" "m \<le> 12"
  shows "get_month_total_points s y m +
         get_month_total_points s (if m = 12 then y + 1 else y) (if m = 12 then 1 else m + 1) =
         points_between s (month_first y m)
           (month_last (if m = 12 then y + 1 else y) (if m = 12 then 1 else m + 1))"
proof -
  let ?y' = "if m = 12 then y + 1 else y" and ?m' = "if m = 12 then 1 else m + 1"
  have m': "1 \<le> ?m'" "?m' \<le> 12"
    using assms by auto
  have a: "month_first y m \<le> month_last y m + 1"
    using month_first_le_last[OF assms, of y] by simp
  have b: "month_last y m \<le> month_last ?y' ?m'"
    using month_first_le_last[OF m', of ?y'] next_month_first[OF assms, of y] by simp
  have "get_month_total_points s y m = points_between s (month_first y m) (month_last y m)"
    by (simp add: get_month_total_points_def month_first_def month_last_def split_beta)
  moreover have "get_month_total_points s ?y' ?m' =
                 points_between s (month_last y m + 1) (month_last ?y' ?m')"
    unfolding next_month_first[OF assms, of y, symmetric]
    by (simp add: get_month_total_points_def month_first_def month_last_def split_beta)
  ultimately show ?thesis
    using points_between_split[OF a b, of s] by simp
qed

lemma month_range_2024_1: "month_range 2024 1 = (738886, 738916)"
  by (simp add: month_range_def ymd2ord_def days_before_year_def days_before_month_def
      is_leap_def Let_def)

lemma month_range_2024_2: "month_range 2024 2 = (738917, 738945)"
  by (simp add: month_range_def ymd2ord_def days_before_year_def days_before_month_def
      is_leap_def Let_def)

theorem month_totals_additive_witness:
  "get_month_total_points diary1 2024 1 = 10 \<and> get_month_total_points diary1 2024 2 = 0 \<and>
   sum_list (map points
     (filter (\<lambda>r. in_month 2024 1 (log_date r) \<or> in_month 2024 2 (log_date r)) (logs diary1))) = 10 \<and>
   month_report_points journal2 2024 1 = 20 \<and> month_report_points journal2 2024 2 = 0 \<and>
   sum_list (map points_awarded
     (filter (\<lambda>r. in_month 2024 1 (jl_date r) \<or> in_month 2024 2 (jl_date r)) (jlogs journal2))) = 20"
proof -
  have d1: "get_month_total_points diary1 2024 1 = 10"
    by (simp add: get_month_total_points_def month_range_2024_1 points_between_def diary1_def)
  have d2: "get_month_total_points diary1 2024 2 = 0"
    by (simp add: get_month_total_points_def month_range_2024_2 points_between_def diary1_def)
  have j1: "month_report_points journal2 2024 1 = 20"
    using month_range_2024_1
    by (simp add: month_report_points_def month_range_def Let_def journal_points_between_def
        journal2_def journal1_def)
  have j2: "month_report_points journal2 2024 2 = 0"
    using month_range_2024_2
    by (simp add: month_report_points_def month_range_def Let_def journal_points_between_def
        journal2_def journal1_def)
  from month_totals_additive[of 1 2 2024 2024 diary1 journal2 "[]"] d1 d2 j1 j2
  show ?thesis by simp
qed

section \<open>The ISO week of a day\<close>

















section \<open>The weekly consistency bonus\<close>



subsection \<open>Example: five completions from Monday to Friday\<close>








section \<open>Streaks in the diary\<close>

text \<open>
  The queries behind the streak, the duplicate check and the counts read only the log
  rows of kind \<open>COMPLETION\<close>; the rows that a bonus or a badge adds are of another kind.
\<close>

definition completion_rows :: "diary \<Rightarrow> log_row list" where
  "completion_rows s = filter (\<lambda>r. kind r = COMPLETION) (logs s)"

lemma has_completion_rows:
  "has_completion s hid d =
     (filter (\<lambda>r. habit_id r = hid \<and> log_date r = d \<and> completed r) (completion_rows s) \<noteq> [])"
  by (auto simp: has_completion_def completion_rows_def filter_empty_conv)

lemma existing_completions_rows:
  "existing_completions s hid d =
     length (filter (\<lambda>r. habit_id r = hid \<and> log_date r = d) (completion_rows s))"
  by (simp add: existing_completions_def completion_rows_def conj_commute conj_left_commute
      cong: conj_cong)

lemma completion_dates_rows:
  "completion_dates s hid u =
     map log_date (filter (\<lambda>r. habit_id r = hid \<and> completed r \<and> log_date r \<le> u) (completion_rows s))"
  by (simp add: completion_dates_def completion_rows_def conj_commute conj_left_commute
      cong: conj_cong)

lemma week_completions_rows:
  "week_completions s hid a b =
     int (length (filter (\<lambda>r. habit_id r = hid \<and> completed r \<and> a \<le> log_date r \<and> log_date r \<le> b)
            (completion_rows s)))"
  by (simp add: week_completions_def completion_rows_def conj_commute conj_left_commute
      cong: conj_cong)

lemma get_total_completions_rows:
  "get_total_completions s hid =
     int (length (filter (\<lambda>r. habit_id r = hid \<and> completed r) (completion_rows s)))"
  by (simp add: get_total_completions_def completion_rows_def conj_commute conj_left_commute
      cong: conj_cong)

lemma calculate_streak_length_rows:
  "completion_rows s = completion_rows s' \<Longrightarrow>
   calculate_streak_length s hid u = calculate_streak_length s' hid u"
  by (simp add: calculate_streak_length_def completion_dates_rows)

lemma mem_completion_dates:
  "d \<in> set (completion_dates s hid u) \<longleftrightarrow> has_completion s hid d \<and> d \<le> u"
  by (auto simp: completion_dates_def has_completion_def filter_empty_conv)

lemma streak_loop_run:
  assumes "\<And>i. i < n \<Longrightarrow> c - int i \<in> set ds" and "c - int n \<notin> set ds"
  shows "streak_loop ds c k = (if k + int n = 0 then 1 else k + int n)"
  using assms
proof (induction n arbitrary: c k)
  case 0
  then show ?case
    by (simp add: streak_loop.simps)
next
  case (Suc n)
  from Suc.prems(1)[of 0] have c: "c \<in> set ds"
    by simp
  have "streak_loop ds (c - 1) (k + 1) = (if k + 1 + int n = 0 then 1 else k + 1 + int n)"
  proof (rule Suc.IH)
    fix i assume "i < n"
    then show "c - 1 - int i \<in> set ds"
      using Suc.prems(1)[of "Suc i"] by (simp add: algebra_simps)
  next
    show "c - 1 - int n \<notin> set ds"
      using Suc.prems(2) by (simp add: algebra_simps)
  qed
  with c show ?case
    by (subst streak_loop.simps) (simp add: algebra_simps)
qed

text \<open>
  What \<open>calculate_streak_length\<close> returns: 1 when the day itself has no completion
  (whatever the history), and the length of the run of completed days that ends at the
  day otherwise.
\<close>

lemma calculate_streak_length_absent:
  assumes "\<not> has_completion s hid u"
  shows "calculate_streak_length s hid u = 1"
proof -
  have "u \<notin> set (completion_dates s hid u)"
    using assms by (simp add: mem_completion_dates)
  then show ?thesis
    using streak_loop_run[of 0 u "completion_dates s hid u" 0]
    by (simp add: calculate_streak_length_def Let_def)
qed

lemma calculate_streak_length_run:
  assumes run: "\<And>i. i < n \<Longrightarrow> has_completion s hid (u - int i)"
    and stop: "\<not> has_completion s hid (u - int n)"
    and pos: "0 < n"
  shows "calculate_streak_length s hid u = int n"
proof -
  have "u \<in> set (completion_dates s hid u)"
    using run[OF pos] by (simp add: mem_completion_dates)
  then have ne: "completion_dates s hid u \<noteq> []"
    by auto
  have "streak_loop (completion_dates s hid u) u 0 = (if 0 + int n = 0 then 1 else 0 + int n)"
    by (rule streak_loop_run) (use run stop in \<open>simp_all add: mem_completion_dates\<close>)
  with ne pos show ?thesis
    by (simp add: calculate_streak_length_def Let_def)
qed

lemma existing_zero_no_completion:
  "existing_completions s hid d = 0 \<Longrightarrow> \<not> has_completion s hid d"
  using has_completion_existing by blast

text \<open>
  \<open>log_completion\<close> computes the streak for the score before it inserts the row of the
  day. On that path the day has no completion yet, so the streak it scores with is 1.
\<close>

lemma streak_before_insert:
  "existing_completions s hid d = 0 \<Longrightarrow> calculate_streak_length s hid d = 1"
  by (simp add: calculate_streak_length_absent existing_zero_no_completion)

lemma log_completion_new:
  assumes hab: "get_habit_by_id_or_name s habit_ref = Inr habit"
    and fresh: "existing_completions s (h_id habit) (toordinal log_day) = 0"
    and s1: "s1 = s\<lparr>logs := logs s @
                    [\<lparr>habit_id = h_id habit, log_date = toordinal log_day, completed = True,
                      row_notes = first_note notes_arg,
                      points = calculate_points_for_completion (difficulty habit) 1,
                      kind = COMPLETION\<rparr>]\<rparr>"
    and weekly: "award_weekly_consistency_bonus_if_eligible habit log_day s1 = (bonus_points, s2)"
    and badges: "check_and_award_badges habit log_day s2 = (badges_points, s3)"
  shows "log_completion habit_ref log_day notes_arg s =
           (Inr (calculate_points_for_completion (difficulty habit) 1 + bonus_points + badges_points,
                 get_month_total_points s3 (year log_day) (month log_day)), s3)"
  unfolding log_completion_def hab sum.case streak_before_insert[OF fresh] Let_def s1[symmetric]
  using fresh by (simp add: weekly badges)

subsection \<open>What the grants change\<close>

definition awards_named :: "string \<Rightarrow> int \<Rightarrow> diary \<Rightarrow> award_row list" where
  "awards_named nm hid s = filter (\<lambda>a. name a = nm \<and> a_habit_id a = Some hid) (awards s)"

lemma completion_rows_award_badge [simp]:
  "completion_rows (award_badge hid d nm s) = completion_rows s"
  by (simp add: award_badge_def completion_rows_def Let_def)

lemma completion_rows_weekly [simp]:
  "completion_rows (snd (award_weekly_consistency_bonus_if_eligible habit log_day s)) = completion_rows s"
  by (simp add: award_weekly_consistency_bonus_if_eligible_def completion_rows_def Let_def split_beta)

lemma check_and_award_badges_eq:
  "check_and_award_badges habit log_day s =
     (0, (if get_total_completions s (h_id habit) = 100
          then award_badge (h_id habit) (toordinal log_day) ''COMPLETE_100'' else id)
         ((if get_total_completions s (h_id habit) = 30
           then award_badge (h_id habit) (toordinal log_day) ''COMPLETE_30'' else id)
          ((if calculate_streak_length s (h_id habit) (toordinal log_day) = 30
            then award_badge (h_id habit) (toordinal log_day) ''STREAK_30'' else id)
           ((if calculate_streak_length s (h_id habit) (toordinal log_day) = 7
             then award_badge (h_id habit) (toordinal log_day) ''STREAK_7'' else id) s))))"
proof -
  have total: "get_total_completions (award_badge hid d nm t) hid' = get_total_completions t hid'"
    for hid d nm t hid'
    by (simp add: get_total_completions_rows)
  show ?thesis
    unfolding check_and_award_badges_def Let_def
    by (simp add: total)
qed

lemma completion_rows_badges [simp]:
  "completion_rows (snd (check_and_award_badges habit log_day s)) = completion_rows s"
  by (simp add: check_and_award_badges_eq)

lemma awards_named_award_badge:
  "awards_named nm hid (award_badge hid' d nm' s) =
     awards_named nm hid s @
       (if nm = nm' \<and> hid = hid' \<and> filter (\<lambda>a. award_date a = d) (awards_named nm hid s) = []
        then [\<lparr>name = nm, a_habit_id = Some hid, award_date = d, a_points = 0,
               period_start = None, period_end = None\<rparr>]
        else [])"
proof (cases "nm = nm' \<and> hid = hid'")
  case True
  have "filter (\<lambda>a. name a = nm \<and> a_habit_id a = Some hid \<and> award_date a = d) (awards s) =
        filter (\<lambda>a. award_date a = d) (awards_named nm hid s)"
    by (simp add: awards_named_def conj_commute conj_left_commute cong: conj_cong)
  with True show ?thesis
    by (simp add: award_badge_def awards_named_def Let_def)
next
  case False
  then show ?thesis
    by (auto simp: award_badge_def awards_named_def Let_def)
qed

lemma awards_named_other_badge:
  "nm \<noteq> nm' \<Longrightarrow> awards_named nm hid (award_badge hid' d nm' s) = awards_named nm hid s"
  by (simp add: awards_named_award_badge)

lemma awards_named_weekly:
  "nm \<noteq> ''WEEKLY_CONSISTENCY'' \<Longrightarrow>
   awards_named nm hid (snd (award_weekly_consistency_bonus_if_eligible habit log_day s)) =
   awards_named nm hid s"
  by (auto simp: award_weekly_consistency_bonus_if_eligible_def awards_named_def Let_def split_beta)

lemma awards_streak7_badges:
  "awards_named ''STREAK_7'' hid (snd (check_and_award_badges habit log_day s)) =
     awards_named ''STREAK_7'' hid s @
       (if calculate_streak_length s (h_id habit) (toordinal log_day) = 7 \<and> hid = h_id habit \<and>
           filter (\<lambda>a. award_date a = toordinal log_day) (awards_named ''STREAK_7'' hid s) = []
        then [\<lparr>name = ''STREAK_7'', a_habit_id = Some hid, award_date = toordinal log_day,
               a_points = 0, period_start = None, period_end = None\<rparr>]
        else [])"
  by (simp add: check_and_award_badges_eq awards_named_other_badge awards_named_award_badge)

subsection \<open>One new completion, and a run of consecutive days\<close>

lemma get_habit_by_id_or_name_habits:
  "habits s' = habits s \<Longrightarrow> get_habit_by_id_or_name s' habit_ref = get_habit_by_id_or_name s habit_ref"
  by (simp add: get_habit_by_id_or_name_def)

lemma log_completion_habits:
  "habits (snd (log_completion habit_ref log_day notes_arg s)) = habits s"
  using log_completion_extends[of s habit_ref log_day notes_arg] by (simp add: diary_extends_def)

definition streak7_award :: "int \<Rightarrow> int \<Rightarrow> award_row" where
  "streak7_award hid d = \<lparr>name = ''STREAK_7'', a_habit_id = Some hid, award_date = d,
                           a_points = 0, period_start = None, period_end = None\<rparr>"

lemma log_completion_step:
  fixes notes_arg :: "string option"
  assumes hab: "get_habit_by_id_or_name s habit_ref = Inr habit"
    and fresh: "existing_completions s (h_id habit) (toordinal log_day) = 0"
  defines "s' \<equiv> snd (log_completion habit_ref log_day notes_arg s)"
  shows "completion_rows s' = completion_rows s @
           [\<lparr>habit_id = h_id habit, log_date = toordinal log_day, completed = True,
             row_notes = first_note notes_arg,
             points = calculate_points_for_completion (difficulty habit) 1, kind = COMPLETION\<rparr>]"
    and "awards_named ''STREAK_7'' hid s' =
           awards_named ''STREAK_7'' hid s @
             (if calculate_streak_length s' (h_id habit) (toordinal log_day) = 7 \<and> hid = h_id habit \<and>
                 filter (\<lambda>a. award_date a = toordinal log_day) (awards_named ''STREAK_7'' hid s) = []
              then [streak7_award hid (toordinal log_day)] else [])"
proof -
  define s1 where "s1 = s\<lparr>logs := logs s @
                    [\<lparr>habit_id = h_id habit, log_date = toordinal log_day, completed = True,
                      row_notes = first_note notes_arg,
                      points = calculate_points_for_completion (difficulty habit) 1,
                      kind = COMPLETION\<rparr>]\<rparr>"
  define s2 where "s2 = snd (award_weekly_consistency_bonus_if_eligible habit log_day s1)"
  define s3 where "s3 = snd (check_and_award_badges habit log_day s2)"
  have "log_completion habit_ref log_day notes_arg s =
          (Inr (calculate_points_for_completion (difficulty habit) 1 +
                fst (award_weekly_consistency_bonus_if_eligible habit log_day s1) +
                fst (check_and_award_badges habit log_day s2),
                get_month_total_points s3 (year log_day) (month log_day)), s3)"
    by (rule log_completion_new[OF hab fresh s1_def]) (simp_all add: s2_def s3_def)
  then have s': "s' = s3"
    by (simp add: s'_def)
  have rows1: "completion_rows s1 = completion_rows s @
           [\<lparr>habit_id = h_id habit, log_date = toordinal log_day, completed = True,
             row_notes = first_note notes_arg,
             points = calculate_points_for_completion (difficulty habit) 1, kind = COMPLETION\<rparr>]"
    by (simp add: s1_def completion_rows_def)
  have rows3: "completion_rows s3 = completion_rows s1"
    by (simp add: s3_def s2_def)
  show "completion_rows s' = completion_rows s @
           [\<lparr>habit_id = h_id habit, log_date = toordinal log_day, completed = True,
             row_notes = first_note notes_arg,
             points = calculate_points_for_completion (difficulty habit) 1, kind = COMPLETION\<rparr>]"
    by (simp add: s' rows3 rows1)
  have streak: "calculate_streak_length s2 (h_id habit) (toordinal log_day) =
                calculate_streak_length s' (h_id habit) (toordinal log_day)"
    by (rule calculate_streak_length_rows) (simp add: s' s3_def)
  have aw: "awards_named ''STREAK_7'' hid s2 = awards_named ''STREAK_7'' hid s"
    by (simp add: s2_def awards_named_weekly) (simp add: s1_def awards_named_def)
  show "awards_named ''STREAK_7'' hid s' =
           awards_named ''STREAK_7'' hid s @
             (if calculate_streak_length s' (h_id habit) (toordinal log_day) = 7 \<and> hid = h_id habit \<and>
                 filter (\<lambda>a. award_date a = toordinal log_day) (awards_named ''STREAK_7'' hid s) = []
              then [streak7_award hid (toordinal log_day)] else [])"
    unfolding s' s3_def awards_streak7_badges streak aw streak7_award_def ..
qed

lemma has_completion_snoc:
  assumes "completion_rows s' = completion_rows s @ [r]" "completed r"
  shows "has_completion s' hid d \<longleftrightarrow> has_completion s hid d \<or> (habit_id r = hid \<and> log_date r = d)"
  using assms by (auto simp: has_completion_rows)

lemma existing_completions_snoc:
  assumes "completion_rows s' = completion_rows s @ [r]"
  shows "existing_completions s' hid d =
         existing_completions s hid d + (if habit_id r = hid \<and> log_date r = d then 1 else 0)"
  using assms by (simp add: existing_completions_rows)

fun log_days :: "string \<Rightarrow> pydate list \<Rightarrow> diary \<Rightarrow> diary" where
  "log_days habit_ref [] s = s"
| "log_days habit_ref (d # ds) s = log_days habit_ref ds (snd (log_completion habit_ref d None s))"

lemma log_days_snoc:
  "log_days habit_ref (ds @ [d]) s = snd (log_completion habit_ref d None (log_days habit_ref ds s))"
  by (induction ds arbitrary: s) simp_all

definition run_row :: "Habit \<Rightarrow> int \<Rightarrow> log_row" where
  "run_row habit d = \<lparr>habit_id = h_id habit, log_date = d, completed = True,
                        row_notes = NoNote,
                        points = calculate_points_for_completion (difficulty habit) 1,
                        kind = COMPLETION\<rparr>"

text \<open>
  The habit is logged on the consecutive days \<open>d0\<close>, \<open>d0 + 1\<close>, \dots, one call per day
  and in this order, in a store where the habit has no \<open>COMPLETION\<close> row from the day
  before \<open>d0\<close> on and no \<open>STREAK_7\<close> award dated \<open>d0\<close> or later. After \<open>k\<close> calls the
  streak that ends at the last logged day is \<open>k\<close>, and the habit's \<open>STREAK_7\<close> awards
  are the old ones and, from the seventh call on, one more, dated \<open>d0 + 6\<close>. Each of
  the \<open>k\<close> rows written carries the points of a streak of 1.
\<close>

lemma diary_run:
  assumes hab: "get_habit_by_id_or_name s habit_ref = Inr habit"
    and days: "\<And>i. i < length days \<Longrightarrow> toordinal (days ! i) = d0 + int i"
    and nocomp: "\<And>d. d0 - 1 \<le> d \<Longrightarrow> existing_completions s (h_id habit) d = 0"
    and noaward: "\<And>a. a \<in> set (awards_named ''STREAK_7'' (h_id habit) s) \<Longrightarrow> award_date a < d0"
    and k: "k \<le> length days"
  shows "get_habit_by_id_or_name (log_days habit_ref (take k days) s) habit_ref = Inr habit \<and>
         (\<forall>d. has_completion (log_days habit_ref (take k days) s) (h_id habit) d \<longleftrightarrow>
                has_completion s (h_id habit) d \<or> (d0 \<le> d \<and> d < d0 + int k)) \<and>
         (\<forall>d. d0 + int k \<le> d \<longrightarrow>
                existing_completions (log_days habit_ref (take k days) s) (h_id habit) d = 0) \<and>
         (0 < k \<longrightarrow> calculate_streak_length (log_days habit_ref (take k days) s) (h_id habit)
                        (d0 + int k - 1) = int k) \<and>
         awards_named ''STREAK_7'' (h_id habit) (log_days habit_ref (take k days) s) =
           awards_named ''STREAK_7'' (h_id habit) s @
             (if 7 \<le> k then [streak7_award (h_id habit) (d0 + 6)] else []) \<and>
         completion_rows (log_days habit_ref (take k days) s) =
           completion_rows s @ map (\<lambda>i. run_row habit (d0 + int i)) [0..<k]"
  using k
proof (induction k)
  case 0
  then show ?case
    using hab nocomp by auto
next
  case (Suc k)
  let ?hid = "h_id habit"
  define sk where "sk = log_days habit_ref (take k days) s"
  define day where "day = days ! k"
  define s' where "s' = snd (log_completion habit_ref day None sk)"
  from Suc.prems have klt: "k < length days"
    by simp
  have d: "toordinal day = d0 + int k"
    using days[OF klt] by (simp add: day_def)
  from Suc.IH klt
  have hab_k: "get_habit_by_id_or_name sk habit_ref = Inr habit"
    and comp_k: "\<And>x. has_completion sk ?hid x \<longleftrightarrow> has_completion s ?hid x \<or> (d0 \<le> x \<and> x < d0 + int k)"
    and fresh_k: "\<And>x. d0 + int k \<le> x \<Longrightarrow> existing_completions sk ?hid x = 0"
    and aw_k: "awards_named ''STREAK_7'' ?hid sk =
                 awards_named ''STREAK_7'' ?hid s @ (if 7 \<le> k then [streak7_award ?hid (d0 + 6)] else [])"
    and rows_k: "completion_rows sk = completion_rows s @ map (\<lambda>i. run_row habit (d0 + int i)) [0..<k]"
    unfolding sk_def by simp_all
  have take: "log_days habit_ref (take (Suc k) days) s = s'"
    using klt by (simp add: take_Suc_conv_app_nth log_days_snoc s'_def sk_def day_def)
  have fresh: "existing_completions sk ?hid (toordinal day) = 0"
    using fresh_k[of "d0 + int k"] by (simp add: d)
  have rows: "completion_rows s' = completion_rows sk @
           [\<lparr>habit_id = ?hid, log_date = d0 + int k, completed = True,
             row_notes = first_note None,
             points = calculate_points_for_completion (difficulty habit) 1, kind = COMPLETION\<rparr>]"
    unfolding s'_def d[symmetric] by (rule log_completion_step(1)[OF hab_k fresh])
  have aw_step: "awards_named ''STREAK_7'' ?hid s' =
           awards_named ''STREAK_7'' ?hid sk @
             (if calculate_streak_length s' ?hid (d0 + int k) = 7 \<and>
                 filter (\<lambda>a. award_date a = d0 + int k) (awards_named ''STREAK_7'' ?hid sk) = []
              then [streak7_award ?hid (d0 + int k)] else [])"
    using log_completion_step(2)[OF hab_k fresh, where notes_arg = None and hid = ?hid]
    unfolding s'_def d by simp
  have hab': "get_habit_by_id_or_name s' habit_ref = Inr habit"
    unfolding s'_def using hab_k
    by (simp only: get_habit_by_id_or_name_habits[OF log_completion_habits])
  have comp': "has_completion s' ?hid x \<longleftrightarrow> has_completion s ?hid x \<or> (d0 \<le> x \<and> x < d0 + int (Suc k))" for x
    using has_completion_snoc[OF rows, of ?hid x] comp_k[of x] by auto
  have fresh': "existing_completions s' ?hid x = 0" if "d0 + int (Suc k) \<le> x" for x
    using existing_completions_snoc[OF rows, of ?hid x] fresh_k[of x] that by simp
  have nocomp0: "\<not> has_completion s ?hid x" if "d0 - 1 \<le> x" for x
    using nocomp[OF that] by (rule existing_zero_no_completion)
  have streak': "calculate_streak_length s' ?hid (d0 + int k) = int (Suc k)"
  proof (rule calculate_streak_length_run)
    fix i assume "i < Suc k"
    then show "has_completion s' ?hid (d0 + int k - int i)"
      by (simp add: comp')
  next
    show "\<not> has_completion s' ?hid (d0 + int k - int (Suc k))"
      using nocomp0[of "d0 - 1"] by (simp add: comp')
  qed simp
  have no_old: "filter (\<lambda>a. award_date a = d0 + int k) (awards_named ''STREAK_7'' ?hid s) = []"
    unfolding filter_empty_conv using noaward by fastforce
  have aw': "awards_named ''STREAK_7'' ?hid s' =
               awards_named ''STREAK_7'' ?hid s @ (if 7 \<le> Suc k then [streak7_award ?hid (d0 + 6)] else [])"
  proof (cases "Suc k = 7")
    case True
    then have k6: "k = 6" by simp
    show ?thesis
      using streak' no_old by (simp add: aw_step aw_k k6)
  next
    case False
    then have "int (Suc k) \<noteq> 7" by linarith
    then show ?thesis
      unfolding aw_step streak' aw_k using False by simp
  qed
  have last: "d0 + int (Suc k) - 1 = d0 + int k"
    by simp
  have rows': "completion_rows s' = completion_rows s @ map (\<lambda>i. run_row habit (d0 + int i)) [0..<Suc k]"
    by (simp add: rows rows_k run_row_def first_note_def)
  show ?case
    unfolding take last using hab' comp' fresh' streak' aw' rows' by blast
qed

section \<open>Streaks in the journal\<close>

definition badges_named :: "string \<Rightarrow> int \<Rightarrow> journal \<Rightarrow> Badge list" where
  "badges_named c hid s = filter (\<lambda>b. code b = c \<and> badge_habit_id b = Some hid) (badges s)"





lemma badges_named_award_none [simp]:
  "badges_named c hid (snd (journal_award_badge c' None s)) = badges_named c hid s"
  by (simp add: journal_award_badge_def badges_named_def Let_def)






subsection \<open>One new row, and a run of consecutive days\<close>



lemma has_log_on_date_jlogs:
  "jlogs s' = jlogs s \<Longrightarrow> has_log_on_date s' hid d = has_log_on_date s hid d"
  by (simp add: has_log_on_date_def)





section \<open>The seven-day streak badge\<close>


subsection \<open>Example: ten days from 1 January 2024\<close>

definition diary0 :: diary where
  "diary0 = \<lparr>habits = [habit1], logs = [], awards = []\<rparr>"


definition january :: "pydate list" where
  "january = map (\<lambda>i. \<lparr>year = 2024, month = 1, day = 1 + int i\<rparr>) [0..<10]"

lemma january_days:
  "i < length january \<Longrightarrow> valid_date (january ! i) \<and> toordinal (january ! i) = 738886 + int i"
  by (simp add: january_def valid_date_def days_in_month_def toordinal_def ymd2ord_def
      days_before_year_def days_before_month_def is_leap_def)

lemma diary0_lookup: "get_habit_by_id_or_name diary0 ''read'' = Inr habit1"
  by (simp add: get_habit_by_id_or_name_def isdigit_def diary0_def habit1_def)


lemma diary0_empty:
  "existing_completions diary0 hid x = 0" "awards_named nm hid diary0 = []"
  by (simp_all add: existing_completions_def awards_named_def diary0_def)



section \<open>The streak the diary scores with\<close>

lemma easy_points: "calculate_points_for_completion 1 1 = 10" "calculate_points_for_completion 1 3 = 11"
  by code_simp+

text \<open>
  Claim C2. The streak function of the diary gives 1 without history, \<open>N\<close> for the last
  of \<open>N\<close> consecutive stored days and 1 after a gap (\<open>calculate_streak_length_absent\<close>,
  \<open>calculate_streak_length_run\<close>, \<open>diary_run\<close>), and the journal stores the streak
  \<open>N\<close> with the \<open>N\<close>-th of \<open>N\<close> days logged in order (\<open>journal_run\<close>). But
  \<open>log_completion\<close> of the diary asks for the streak before it stores the row of the
  day, and what it scores with is then always 1. The habit ``read'' (difficulty 1) is
  logged on 1, 2 and 3 January 2024 in an empty diary: at the third call the streak
  computed for the score is 1 and the three rows carry 10 points each, while the streak
  of the third day is 3 once its row is stored, worth 11 points.
\<close>

theorem diary_scores_with_streak_1:
  "calculate_streak_length (log_days ''read'' (take 2 january) diary0) 1 (toordinal (january ! 2)) = 1 \<and>
   map points (completion_rows (log_days ''read'' (take 3 january) diary0)) = [10, 10, 10] \<and>
   calculate_streak_length (log_days ''read'' (take 3 january) diary0) 1 (toordinal (january ! 2)) = 3 \<and>
   calculate_points_for_completion 1 3 = 11"
proof -
  have h: "h_id habit1 = 1" "difficulty habit1 = 1"
    by (simp_all add: habit1_def)
  have d: "toordinal (january ! 2) = 738888"
    using january_days[of 2] by (simp add: january_def)
  note run = diary_run[OF diary0_lookup _ diary0_empty(1), where days = january and ?d0.0 = 738886,
      unfolded h diary0_empty]
  have two: "existing_completions (log_days ''read'' (take 2 january) diary0) 1 738888 = 0"
    using run[of 2] january_days by (simp add: january_def)
  have three: "calculate_streak_length (log_days ''read'' (take 3 january) diary0) 1 738888 = 3"
    and rows: "completion_rows (log_days ''read'' (take 3 january) diary0) =
               completion_rows diary0 @ map (\<lambda>i. run_row habit1 (738886 + int i)) [0..<3]"
    using run[of 3] january_days by (simp_all add: january_def)
  have upt3: "[0..<3] = [0, Suc 0, Suc (Suc 0)]"
    by (simp add: numeral_3_eq_3 upt_rec[of 0] upt_rec[of "Suc 0"] upt_rec[of "Suc (Suc 0)"])
  have "map points (completion_rows (log_days ''read'' (take 3 january) diary0)) = [10, 10, 10]"
    unfolding rows upt3
    by (simp add: completion_rows_def diary0_def run_row_def h easy_points)
  with streak_before_insert[OF two] three easy_points(2) show ?thesis
    by (simp add: d)
qed

section \<open>A grant that already exists\<close>










end
